theory Spec2Isabelle
  imports Main "HOL-Library.Word" "HOL-Library.Sublist"
begin

section \<open>JavaScript strings\<close>

text \<open>
  A JavaScript string is a sequence of 16-bit UTF-16 code units. A string literal of
  the source that is plain ASCII is written \<open>utf16 ''...''\<close>.
\<close>

type_synonym code_unit = "16 word"
type_synonym jsstring = "code_unit list"

definition utf16 :: "string \<Rightarrow> jsstring" where
  "utf16 s = map (\<lambda>c. of_nat (of_char c)) s"

text \<open>
  \<open>String.prototype.trim\<close> strips WhiteSpace and LineTerminator code points from
  both ends. All of them lie in the Basic Multilingual Plane, so the test is on single
  code units: TAB, LF, VT, FF, CR, SPACE, NBSP, U+1680, U+2000..U+200A, LS, PS, U+202F,
  U+205F, U+3000 and the byte order mark U+FEFF.
\<close>

definition isWhiteSpace :: "code_unit \<Rightarrow> bool" where
  "isWhiteSpace c \<longleftrightarrow>
     c = 0x0009 \<or> c = 0x000A \<or> c = 0x000B \<or> c = 0x000C \<or> c = 0x000D \<or>
     c = 0x0020 \<or> c = 0x00A0 \<or> c = 0x1680 \<or>
     (0x2000 \<le> c \<and> c \<le> 0x200A) \<or>
     c = 0x2028 \<or> c = 0x2029 \<or> c = 0x202F \<or> c = 0x205F \<or> c = 0x3000 \<or>
     c = 0xFEFF"

definition trim :: "jsstring \<Rightarrow> jsstring" where
  "trim s = rev (dropWhile isWhiteSpace (rev (dropWhile isWhiteSpace s)))"

text \<open>
  \<open>Number.prototype.toString\<close> on an integral Number below \<open>10^21\<close> in magnitude
  prints its decimal digits, with a leading minus sign when negative. \<open>Date.now()\<close>
  is an integral number of milliseconds of magnitude at most \<open>8.64 * 10^15\<close>, so the
  clock reading is an \<open>int\<close> and \<open>toString\<close> its decimal numeral.
\<close>

definition digit :: "nat \<Rightarrow> code_unit" where
  "digit d = of_nat (48 + d)"

fun digits :: "nat \<Rightarrow> jsstring" where
  "digits n = (if n < 10 then [digit n] else digits (n div 10) @ [digit (n mod 10)])"

declare digits.simps [simp del]

definition toString :: "int \<Rightarrow> jsstring" where
  "toString i = (if i < 0 then 0x002D # digits (nat (- i)) else digits (nat i))"

section \<open>The Todo store (App.tsx, the component's state and its three handlers)\<close>

text \<open>
  \<open>type Todo = { id: string; text: string; done: boolean }\<close>. The field names carry
  a prefix because \<open>id\<close>, \<open>text\<close> and \<open>done\<close> are taken in Isabelle.
\<close>

record Todo =
  todo_id :: jsstring
  todo_text :: jsstring
  todo_done :: bool

text \<open>
  The two \<open>useState\<close> cells of \<open>App\<close>: the list and the pending input. A handler
  runs against the values of the latest render and its \<open>setTodos\<close>/\<open>setInput\<close>
  calls give the values of the next one, so a handler is a function from state to state.
\<close>

record app_state =
  todos :: "Todo list"
  input :: jsstring

definition initial :: app_state where
  "initial = \<lparr>todos = [], input = []\<rparr>"

text \<open>\<open>onChangeText={setInput}\<close>\<close>

definition setInput :: "jsstring \<Rightarrow> app_state \<Rightarrow> app_state" where
  "setInput s st = st\<lparr>input := s\<rparr>"

text \<open>
  \<open>addTodo\<close>; \<open>now\<close> is the value \<open>Date.now()\<close> returns during the call.
\<close>

definition addTodo :: "int \<Rightarrow> app_state \<Rightarrow> app_state" where
  "addTodo now st =
     (if trim (input st) = [] then st
      else st\<lparr>todos := todos st @
                  [\<lparr>todo_id = toString now, todo_text = input st, todo_done = False\<rparr>],
              input := []\<rparr>)"

text \<open>
  \<open>toggleTodo\<close>; \<open>toggled i\<close> is its arrow function
  \<open>todo => todo.id === id ? { ...todo, done: !todo.done } : todo\<close>.
\<close>

definition toggled :: "jsstring \<Rightarrow> Todo \<Rightarrow> Todo" where
  "toggled i todo =
     (if todo_id todo = i then todo\<lparr>todo_done := \<not> todo_done todo\<rparr> else todo)"

definition toggleTodo :: "jsstring \<Rightarrow> app_state \<Rightarrow> app_state" where
  "toggleTodo i st = st\<lparr>todos := map (toggled i) (todos st)\<rparr>"

definition deleteTodo :: "jsstring \<Rightarrow> app_state \<Rightarrow> app_state" where
  "deleteTodo i st = st\<lparr>todos := filter (\<lambda>todo. todo_id todo \<noteq> i) (todos st)\<rparr>"

text \<open>The user's actions on the screen, and a session as a list of them.\<close>

datatype event =
    ChangeText jsstring
  | PressAdd int
  | PressToggle jsstring
  | PressDelete jsstring

fun step :: "app_state \<Rightarrow> event \<Rightarrow> app_state" where
  "step st (ChangeText s) = setInput s st"
| "step st (PressAdd now) = addTodo now st"
| "step st (PressToggle i) = toggleTodo i st"
| "step st (PressDelete i) = deleteTodo i st"

definition run :: "event list \<Rightarrow> app_state \<Rightarrow> app_state" where
  "run evs st = foldl step st evs"

text \<open>
  What the claims about sessions speak of: the clock readings of the presses of Add,
  the events that can insert (typing and pressing Add), what identifies a note
  regardless of its flag, and the entries that differ between two lists position by
  position.
\<close>

fun add_clock :: "event \<Rightarrow> int list" where
  "add_clock (PressAdd now) = [now]"
| "add_clock (ChangeText s) = []"
| "add_clock (PressToggle i) = []"
| "add_clock (PressDelete i) = []"

definition add_clocks :: "event list \<Rightarrow> int list" where
  "add_clocks evs = concat (map add_clock evs)"

fun is_insertion :: "event \<Rightarrow> bool" where
  "is_insertion (ChangeText s) = True"
| "is_insertion (PressAdd now) = True"
| "is_insertion (PressToggle i) = False"
| "is_insertion (PressDelete i) = False"

definition note_key :: "Todo \<Rightarrow> jsstring \<times> jsstring" where
  "note_key todo = (todo_id todo, todo_text todo)"

definition changed_entries :: "Todo list \<Rightarrow> Todo list \<Rightarrow> (Todo \<times> Todo) list" where
  "changed_entries xs ys = filter (\<lambda>(x, y). x \<noteq> y) (zip xs ys)"

text \<open>
  Two sessions that each add two notes. In the first the clock reads 1 and 2; in the
  second it reads the same millisecond at both presses of Add (\<open>Date.now()\<close> is
  the wall clock: it has millisecond resolution and may be set back).
\<close>

definition two_notes_session :: "event list" where
  "two_notes_session =
     [ChangeText (utf16 ''Buy milk''), PressAdd 1, ChangeText (utf16 ''Walk dog''), PressAdd 2]"

definition same_tick_session :: "event list" where
  "same_tick_session =
     [ChangeText (utf16 ''a''), PressAdd 5, ChangeText (utf16 ''b''), PressAdd 5]"

text \<open>The scenario of the specification, with clock readings 1 and 2.\<close>

definition milk_session :: "event list" where
  "milk_session =
     [ChangeText (utf16 ''Buy milk''), PressAdd 1, PressToggle (toString 1),
      ChangeText (utf16 ''Walk dog''), PressAdd 2, PressDelete (toString 1)]"

section \<open>The notification bridge (App.tsx, the calls into the messaging services)\<close>

text \<open>
  The services are external: Firebase messaging, Notifee, the platform. An awaited call
  either returns or throws. A computation is the list of external calls it made, in
  order, and how it ended: \<open>Inl\<close> a thrown error, \<open>Inr\<close> the returned value.
\<close>

datatype js_error = JsError jsstring

text \<open>\<open>Platform.OS\<close>\<close>

datatype os = IOS | Android | MacOS | Windows | Web

text \<open>\<open>messaging.AuthorizationStatus\<close> of the Firebase library.\<close>

datatype AuthorizationStatus = NOT_DETERMINED | DENIED | AUTHORIZED | PROVISIONAL | EPHEMERAL

text \<open>\<open>PermissionsAndroid.RESULTS\<close> of React Native.\<close>

datatype PermissionStatus = GRANTED | PERMISSION_DENIED | NEVER_ASK_AGAIN

text \<open>\<open>AndroidImportance\<close> of Notifee.\<close>

datatype AndroidImportance = NONE | MIN | LOW | DEFAULT | HIGH

text \<open>
  The fields of \<open>FirebaseMessagingTypes.RemoteMessage\<close> the code reads:
  \<open>notification?: { title?: string; body?: string }\<close>.
\<close>

record Notification =
  title :: "jsstring option"
  body :: "jsstring option"

record RemoteMessage =
  notification :: "Notification option"

text \<open>The argument of \<open>notifee.createChannel\<close>.\<close>

record Channel =
  channel_id :: jsstring
  channel_name :: jsstring
  importance :: AndroidImportance

text \<open>The argument of \<open>notifee.displayNotification\<close>.\<close>

record AndroidOptions =
  channelId :: jsstring
  smallIcon :: jsstring
  pressAction_id :: jsstring

record IosOptions =
  sound :: jsstring

record DisplayRequest =
  shown_title :: jsstring
  shown_body :: jsstring
  android :: AndroidOptions
  ios :: IosOptions

datatype call =
    NotifeeRequestPermission
  | NotifeeCreateChannel Channel
  | NotifeeDisplayNotification DisplayRequest
  | MessagingRequestPermission
  | PermissionsAndroidRequest jsstring
  | RegisterDeviceForRemoteMessages
  | GetToken
  | ConsoleLog jsstring jsstring
  | ConsoleError jsstring js_error

text \<open>What each external call does when the code awaits it.\<close>

record services =
  notifee_requestPermission :: "js_error + unit"
  notifee_createChannel :: "Channel \<Rightarrow> js_error + jsstring"
  notifee_displayNotification :: "DisplayRequest \<Rightarrow> js_error + unit"
  Platform_OS :: os
  Platform_Version :: int
  messaging_requestPermission :: "js_error + AuthorizationStatus"
  PermissionsAndroid_request :: "jsstring \<Rightarrow> js_error + PermissionStatus"
  messaging_registerDeviceForRemoteMessages :: "js_error + unit"
  messaging_getToken :: "js_error + jsstring"

type_synonym 'a io = "call list \<times> (js_error + 'a)"

definition ret :: "'a \<Rightarrow> 'a io" where
  "ret x = ([], Inr x)"

text \<open>\<open>await\<close> of an external call: the call is made, its outcome is the result.\<close>

definition await :: "call \<Rightarrow> js_error + 'a \<Rightarrow> 'a io" where
  "await c outcome = ([c], outcome)"

text \<open>Sequencing: a throw in the first part skips the rest.\<close>

definition bind_io :: "'a io \<Rightarrow> ('a \<Rightarrow> 'b io) \<Rightarrow> 'b io" where
  "bind_io m f =
     (case m of
        (calls, Inl e) \<Rightarrow> (calls, Inl e)
      | (calls, Inr x) \<Rightarrow> (case f x of (calls', r) \<Rightarrow> (calls @ calls', r)))"

text \<open>\<open>try { block } catch (error) { handler }\<close>\<close>

definition try_catch :: "'a io \<Rightarrow> (js_error \<Rightarrow> 'a io) \<Rightarrow> 'a io" where
  "try_catch block handler =
     (case block of
        (calls, Inl e) \<Rightarrow> (case handler e of (calls', r) \<Rightarrow> (calls @ calls', r))
      | (calls, Inr x) \<Rightarrow> (calls, Inr x))"

text \<open>
  \<open>a || b\<close> on \<open>string | undefined\<close>: \<open>b\<close> when \<open>a\<close> is falsy, that is undefined
  or the empty string.
\<close>

fun js_or :: "jsstring option \<Rightarrow> jsstring \<Rightarrow> jsstring" where
  "js_or None d = d"
| "js_or (Some s) d = (if s = [] then d else s)"

text \<open>\<open>remoteMessage.notification?.title\<close> and \<open>remoteMessage.notification?.body\<close>\<close>

definition message_title :: "RemoteMessage \<Rightarrow> jsstring option" where
  "message_title remoteMessage =
     (case notification remoteMessage of None \<Rightarrow> None | Some n \<Rightarrow> title n)"

definition message_body :: "RemoteMessage \<Rightarrow> jsstring option" where
  "message_body remoteMessage =
     (case notification remoteMessage of None \<Rightarrow> None | Some n \<Rightarrow> body n)"

definition default_channel :: Channel where
  "default_channel =
     \<lparr>channel_id = utf16 ''default'', channel_name = utf16 ''Default Channel'',
      importance = HIGH\<rparr>"

text \<open>The object literal passed to \<open>notifee.displayNotification\<close>.\<close>

definition displayRequest :: "RemoteMessage \<Rightarrow> jsstring \<Rightarrow> DisplayRequest" where
  "displayRequest remoteMessage ch =
     \<lparr>shown_title = js_or (message_title remoteMessage) (utf16 ''New Notification''),
      shown_body = js_or (message_body remoteMessage) (utf16 ''You have a new message''),
      android = \<lparr>channelId = ch, smallIcon = utf16 ''ic_launcher'',
                 pressAction_id = utf16 ''default''\<rparr>,
      ios = \<lparr>sound = utf16 ''default''\<rparr>\<rparr>"

definition displayNotification :: "services \<Rightarrow> RemoteMessage \<Rightarrow> unit io" where
  "displayNotification sv remoteMessage =
     bind_io (await NotifeeRequestPermission (notifee_requestPermission sv)) (\<lambda>_.
     bind_io (await (NotifeeCreateChannel default_channel)
                (notifee_createChannel sv default_channel)) (\<lambda>ch.
     await (NotifeeDisplayNotification (displayRequest remoteMessage ch))
       (notifee_displayNotification sv (displayRequest remoteMessage ch))))"

definition registerDeviceForMessaging :: "services \<Rightarrow> unit io" where
  "registerDeviceForMessaging sv =
     try_catch
       (bind_io (await RegisterDeviceForRemoteMessages
                   (messaging_registerDeviceForRemoteMessages sv)) (\<lambda>_.
        bind_io (await GetToken (messaging_getToken sv)) (\<lambda>token.
        await (ConsoleLog (utf16 ''FCM Token:'') token) (Inr ()))))
       (\<lambda>error. await (ConsoleError (utf16 ''Error registering device:'') error) (Inr ()))"

definition POST_NOTIFICATIONS :: jsstring where
  "POST_NOTIFICATIONS = utf16 ''android.permission.POST_NOTIFICATIONS''"

definition requestUserPermission :: "services \<Rightarrow> unit io" where
  "requestUserPermission sv =
     try_catch
       (if Platform_OS sv = IOS then
          bind_io (await MessagingRequestPermission (messaging_requestPermission sv))
            (\<lambda>authStatus.
               if authStatus = AUTHORIZED \<or> authStatus = PROVISIONAL
               then registerDeviceForMessaging sv
               else ret ())
        else if Platform_OS sv = Android then
          (if Platform_Version sv \<ge> 33 then
             bind_io (await (PermissionsAndroidRequest POST_NOTIFICATIONS)
                        (PermissionsAndroid_request sv POST_NOTIFICATIONS))
               (\<lambda>granted.
                  if granted = GRANTED then registerDeviceForMessaging sv else ret ())
           else registerDeviceForMessaging sv)
        else ret ())
       (\<lambda>error. await (ConsoleError (utf16 ''Error requesting permission:'') error) (Inr ()))"

text \<open>
  The runs the permission claim is about. Denied: on iOS the request returns a status
  that is neither AUTHORIZED nor PROVISIONAL; on Android 33 and later the runtime
  request returns anything but GRANTED. Throwing: the request that the platform's
  branch awaits throws.
\<close>

definition permission_denied :: "services \<Rightarrow> bool" where
  "permission_denied sv \<longleftrightarrow>
     (Platform_OS sv = IOS \<and>
        (case messaging_requestPermission sv of
           Inl e \<Rightarrow> False
         | Inr authStatus \<Rightarrow> authStatus \<noteq> AUTHORIZED \<and> authStatus \<noteq> PROVISIONAL)) \<or>
     (Platform_OS sv = Android \<and> Platform_Version sv \<ge> 33 \<and>
        (case PermissionsAndroid_request sv POST_NOTIFICATIONS of
           Inl e \<Rightarrow> False
         | Inr granted \<Rightarrow> granted \<noteq> GRANTED))"

definition permission_request_throws :: "services \<Rightarrow> bool" where
  "permission_request_throws sv \<longleftrightarrow>
     (Platform_OS sv = IOS \<and> isl (messaging_requestPermission sv)) \<or>
     (Platform_OS sv = Android \<and> Platform_Version sv \<ge> 33 \<and>
        isl (PermissionsAndroid_request sv POST_NOTIFICATIONS))"

text \<open>Services for the examples: every call succeeds unless a field is overridden.\<close>

definition working_services :: services where
  "working_services =
     \<lparr>notifee_requestPermission = Inr (),
      notifee_createChannel = (\<lambda>c. Inr (channel_id c)),
      notifee_displayNotification = (\<lambda>r. Inr ()),
      Platform_OS = Android,
      Platform_Version = 34,
      messaging_requestPermission = Inr AUTHORIZED,
      PermissionsAndroid_request = (\<lambda>p. Inr GRANTED),
      messaging_registerDeviceForRemoteMessages = Inr (),
      messaging_getToken = Inr (utf16 ''token'')\<rparr>"

definition blank_title_message :: RemoteMessage where
  "blank_title_message =
     \<lparr>notification = Some \<lparr>title = Some [], body = Some (utf16 ''hi'')\<rparr>\<rparr>"

text \<open>A message with no notification part, and one with both texts.\<close>

definition bare_message :: RemoteMessage where
  "bare_message = \<lparr>notification = None\<rparr>"

definition full_message :: RemoteMessage where
  "full_message =
     \<lparr>notification = Some \<lparr>title = Some (utf16 ''Sale''), body = Some (utf16 ''Half price'')\<rparr>\<rparr>"

section \<open>Decimal numerals are injective\<close>

lemma unat_digit: "d < 10 \<Longrightarrow> unat (digit d) = 48 + d"
proof -
  assume d: "d < 10"
  have "unat (digit d) = (48 + d) mod 2 ^ LENGTH(16)"
    unfolding digit_def by (rule unat_of_nat)
  with d show ?thesis by simp
qed

lemma digit_inj: "a < 10 \<Longrightarrow> b < 10 \<Longrightarrow> digit a = digit b \<Longrightarrow> a = b"
proof -
  assume a: "a < 10" and b: "b < 10" and e: "digit a = digit b"
  have "unat (digit a) = unat (digit b)" using e by simp
  with a b show "a = b" by (simp add: unat_digit)
qed

lemma digits_not_Nil: "digits n \<noteq> []"
  by (subst digits.simps) simp

lemma digits_inj: "digits n = digits m \<Longrightarrow> n = m"
proof (induction n arbitrary: m rule: digits.induct)
  case (1 n)
  show ?case
  proof (cases "n < 10")
    case True
    then have dn: "digits n = [digit n]" by (subst digits.simps) simp
    show ?thesis
    proof (cases "m < 10")
      case True
      then have "digits m = [digit m]" by (subst digits.simps) simp
      with dn "1.prems" \<open>n < 10\<close> True show ?thesis by (simp add: digit_inj)
    next
      case False
      then have "digits m = digits (m div 10) @ [digit (m mod 10)]"
        by (subst digits.simps) simp
      with dn "1.prems" have "digits (m div 10) = []" by simp
      then show ?thesis by (simp add: digits_not_Nil)
    qed
  next
    case False
    then have dn: "digits n = digits (n div 10) @ [digit (n mod 10)]"
      by (subst digits.simps) simp
    show ?thesis
    proof (cases "m < 10")
      case True
      then have "digits m = [digit m]" by (subst digits.simps) simp
      with dn "1.prems" have "digits (n div 10) = []" by simp
      then show ?thesis by (simp add: digits_not_Nil)
    next
      case m: False
      then have "digits m = digits (m div 10) @ [digit (m mod 10)]"
        by (subst digits.simps) simp
      with dn "1.prems" have e1: "digits (n div 10) = digits (m div 10)"
        and e2: "digit (n mod 10) = digit (m mod 10)" by simp_all
      from "1.IH" [OF False e1] have d: "n div 10 = m div 10" .
      from e2 have r: "n mod 10 = m mod 10" by (simp add: digit_inj)
      have "n = 10 * (n div 10) + n mod 10" by simp
      also have "\<dots> = 10 * (m div 10) + m mod 10" using d r by simp
      finally show ?thesis by simp
    qed
  qed
qed

lemma digit_not_minus: "d < 10 \<Longrightarrow> digit d \<noteq> 0x2D"
proof
  assume d: "d < 10" and e: "digit d = 0x2D"
  have "unat (digit d) = 48 + d" using d by (rule unat_digit)
  with e show False by simp
qed

lemma hd_digits: "hd (digits n) \<noteq> 0x2D"
proof (induction n rule: digits.induct)
  case (1 n)
  show ?case
  proof (cases "n < 10")
    case True
    then show ?thesis by (subst digits.simps) (simp add: digit_not_minus)
  next
    case False
    with 1 show ?thesis by (subst digits.simps) (simp add: digits_not_Nil)
  qed
qed

lemma toString_inj: "toString a = toString b \<Longrightarrow> a = b"
proof -
  assume e: "toString a = toString b"
  have neg: "0x2D # digits k \<noteq> digits l" for k l
    using hd_digits [of l] by (cases "digits l") (auto simp: digits_not_Nil)
  show "a = b"
  proof (cases "a < 0")
    case True
    show ?thesis
    proof (cases "b < 0")
      case True
      with \<open>a < 0\<close> e have "nat (- a) = nat (- b)" by (simp add: toString_def digits_inj)
      with True \<open>a < 0\<close> show ?thesis by simp
    next
      case False
      with True e neg show ?thesis by (simp add: toString_def)
    qed
  next
    case False
    show ?thesis
    proof (cases "b < 0")
      case True
      with False e neg [of "nat (- b)" "nat a"] show ?thesis by (simp add: toString_def)
    next
      case b: False
      with False e have "nat a = nat b" by (simp add: toString_def digits_inj)
      with False b show ?thesis by simp
    qed
  qed
qed

section \<open>The handlers, one at a time\<close>

lemma run_snoc: "run (evs @ [e]) st = step (run evs st) e"
  by (simp add: run_def)

lemma todos_toggleTodo: "todos (toggleTodo i st) = map (toggled i) (todos st)"
  by (simp add: toggleTodo_def)

lemma todos_deleteTodo:
  "todos (deleteTodo i st) = filter (\<lambda>todo. todo_id todo \<noteq> i) (todos st)"
  by (simp add: deleteTodo_def)

lemma todos_addTodo:
  "todos (addTodo now st) =
     todos st @ (if trim (input st) = [] then []
                 else [\<lparr>todo_id = toString now, todo_text = input st, todo_done = False\<rparr>])"
  by (simp add: addTodo_def)

lemma note_key_toggled: "note_key (toggled i todo) = note_key todo"
  by (simp add: note_key_def toggled_def)

lemma todo_id_toggled: "todo_id (toggled i todo) = todo_id todo"
  by (simp add: toggled_def)

lemma toggled_other: "todo_id todo \<noteq> i \<Longrightarrow> toggled i todo = todo"
  by (simp add: toggled_def)

lemma toggled_differs: "todo_id todo = i \<Longrightarrow> toggled i todo \<noteq> todo"
proof
  assume "todo_id todo = i" and "toggled i todo = todo"
  then have "todo_done (todo\<lparr>todo_done := \<not> todo_done todo\<rparr>) = todo_done todo"
    by (simp add: toggled_def)
  then show False by simp
qed

lemma map_toggled_absent: "i \<notin> set (map todo_id xs) \<Longrightarrow> map (toggled i) xs = xs"
  by (induction xs) (auto simp: toggled_other)

lemma changed_absent:
  "i \<notin> set (map todo_id xs) \<Longrightarrow> changed_entries xs (map (toggled i) xs) = []"
  by (simp add: map_toggled_absent changed_entries_def zip_same_conv_map)

lemma changed_Cons:
  "changed_entries (x # xs) (y # ys) =
     (if x \<noteq> y then [(x, y)] else []) @ changed_entries xs ys"
  by (simp add: changed_entries_def)

lemma changed_once:
  "distinct (map todo_id xs) \<Longrightarrow> i \<in> set (map todo_id xs) \<Longrightarrow>
   length (changed_entries xs (map (toggled i) xs)) = 1"
proof (induction xs)
  case Nil
  then show ?case by simp
next
  case (Cons x xs)
  show ?case
  proof (cases "todo_id x = i")
    case True
    with Cons.prems have "i \<notin> set (map todo_id xs)" by auto
    then have "changed_entries xs (map (toggled i) xs) = []" by (rule changed_absent)
    with True show ?thesis
      using toggled_differs [of x i] by (simp add: changed_Cons)
  next
    case False
    with Cons.prems have "i \<in> set (map todo_id xs)" and "distinct (map todo_id xs)"
      by auto
    with Cons.IH have "length (changed_entries xs (map (toggled i) xs)) = 1" by simp
    with False show ?thesis by (simp add: changed_Cons toggled_other)
  qed
qed

lemma filter_absent:
  "i \<notin> set (map todo_id xs) \<Longrightarrow> filter (\<lambda>todo. todo_id todo \<noteq> i) xs = xs"
  by (induction xs) auto

lemma filter_once:
  "distinct (map todo_id xs) \<Longrightarrow> i \<in> set (map todo_id xs) \<Longrightarrow>
   length (filter (\<lambda>todo. todo_id todo \<noteq> i) xs) + 1 = length xs"
proof (induction xs)
  case Nil
  then show ?case by simp
next
  case (Cons x xs)
  show ?case
  proof (cases "todo_id x = i")
    case True
    with Cons.prems have "i \<notin> set (map todo_id xs)" by auto
    then have "filter (\<lambda>todo. todo_id todo \<noteq> i) xs = xs" by (rule filter_absent)
    with True show ?thesis by simp
  next
    case False
    with Cons.prems Cons.IH show ?thesis by auto
  qed
qed

lemma two_notes_state:
  "run two_notes_session initial =
     \<lparr>todos = [\<lparr>todo_id = utf16 ''1'', todo_text = utf16 ''Buy milk'', todo_done = False\<rparr>,
               \<lparr>todo_id = utf16 ''2'', todo_text = utf16 ''Walk dog'', todo_done = False\<rparr>],
      input = []\<rparr>"
  by code_simp

lemma same_tick_state:
  "run same_tick_session initial =
     \<lparr>todos = [\<lparr>todo_id = utf16 ''5'', todo_text = utf16 ''a'', todo_done = False\<rparr>,
               \<lparr>todo_id = utf16 ''5'', todo_text = utf16 ''b'', todo_done = False\<rparr>],
      input = []\<rparr>"
  by code_simp

text \<open>
  C2. When the pending input, trimmed, is not empty, pressing Add makes the list one
  longer: the old list followed by one new note, not done, whose text is the input as
  typed and whose id is the decimal clock reading; and the pending input becomes the
  empty string.
\<close>

theorem addTodo_appends:
  "trim (input st) \<noteq> [] \<Longrightarrow>
   length (todos (addTodo now st)) = length (todos st) + 1 \<and>
   todos (addTodo now st) =
     todos st @ [\<lparr>todo_id = toString now, todo_text = input st, todo_done = False\<rparr>] \<and>
   input (addTodo now st) = []"
  by (simp add: addTodo_def)

theorem addTodo_appends_witness:
  "trim (input (setInput (utf16 '' Buy milk'') initial)) \<noteq> [] \<and>
   length (todos (addTodo 1 (setInput (utf16 '' Buy milk'') initial))) = 1 \<and>
   todos (addTodo 1 (setInput (utf16 '' Buy milk'') initial)) =
     [\<lparr>todo_id = utf16 ''1'', todo_text = utf16 '' Buy milk'', todo_done = False\<rparr>] \<and>
   input (addTodo 1 (setInput (utf16 '' Buy milk'') initial)) = []"
proof -
  have h: "trim (input (setInput (utf16 '' Buy milk'') initial)) \<noteq> []"
    by code_simp
  have i: "toString 1 = utf16 ''1''"
    by code_simp
  from h addTodo_appends [OF h, of 1] show ?thesis
    by (simp add: i setInput_def initial_def)
qed

text \<open>
  C3. When the pending input, trimmed, is empty (the empty string, or blanks only),
  pressing Add changes nothing: neither the list nor the input.
\<close>

theorem addTodo_blank: "trim (input st) = [] \<Longrightarrow> addTodo now st = st"
  by (simp add: addTodo_def)

theorem addTodo_blank_witness:
  "trim (input (setInput (utf16 ''   '') (run two_notes_session initial))) = [] \<and>
   addTodo 3 (setInput (utf16 ''   '') (run two_notes_session initial)) =
     setInput (utf16 ''   '') (run two_notes_session initial) \<and>
   trim (input (run two_notes_session initial)) = [] \<and>
   addTodo 3 (run two_notes_session initial) = run two_notes_session initial"
proof -
  have h: "trim (input (setInput (utf16 ''   '') (run two_notes_session initial))) = []"
    by code_simp
  have k: "trim (input (run two_notes_session initial)) = []"
    by code_simp
  from h k addTodo_blank [OF h, of 3] addTodo_blank [OF k, of 3] show ?thesis
    by simp
qed

text \<open>
  C4, as the code has it. Toggling an id keeps the length, the ids and texts in their
  positions and the input; at each position the note is flipped when its id is the
  given one and unchanged otherwise; an id not in the list leaves the state unchanged;
  and when the ids of the list are pairwise distinct and the id is present, exactly one
  entry differs afterwards.
\<close>

theorem toggleTodo_flips:
  "length (todos (toggleTodo i st)) = length (todos st) \<and>
   map note_key (todos (toggleTodo i st)) = map note_key (todos st) \<and>
   input (toggleTodo i st) = input st \<and>
   (\<forall>k < length (todos st).
      todos (toggleTodo i st) ! k =
        (if todo_id (todos st ! k) = i
         then (todos st ! k)\<lparr>todo_done := \<not> todo_done (todos st ! k)\<rparr>
         else todos st ! k)) \<and>
   (i \<notin> set (map todo_id (todos st)) \<longrightarrow> toggleTodo i st = st) \<and>
   (distinct (map todo_id (todos st)) \<and> i \<in> set (map todo_id (todos st)) \<longrightarrow>
      length (changed_entries (todos st) (todos (toggleTodo i st))) = 1)"
proof (intro conjI allI impI)
  show "length (todos (toggleTodo i st)) = length (todos st)"
    by (simp add: todos_toggleTodo)
  show "map note_key (todos (toggleTodo i st)) = map note_key (todos st)"
    by (simp add: todos_toggleTodo note_key_toggled)
  show "input (toggleTodo i st) = input st"
    by (simp add: toggleTodo_def)
next
  fix k assume "k < length (todos st)"
  then show "todos (toggleTodo i st) ! k =
        (if todo_id (todos st ! k) = i
         then (todos st ! k)\<lparr>todo_done := \<not> todo_done (todos st ! k)\<rparr>
         else todos st ! k)"
    by (simp add: todos_toggleTodo toggled_def)
next
  assume "i \<notin> set (map todo_id (todos st))"
  then have "map (toggled i) (todos st) = todos st" by (rule map_toggled_absent)
  then show "toggleTodo i st = st" by (simp add: toggleTodo_def)
next
  assume "distinct (map todo_id (todos st)) \<and> i \<in> set (map todo_id (todos st))"
  then show "length (changed_entries (todos st) (todos (toggleTodo i st))) = 1"
    by (simp only: todos_toggleTodo changed_once)
qed

theorem toggleTodo_flips_witness:
  "distinct (map todo_id (todos (run two_notes_session initial))) \<and>
   utf16 ''1'' \<in> set (map todo_id (todos (run two_notes_session initial))) \<and>
   length (changed_entries (todos (run two_notes_session initial))
             (todos (toggleTodo (utf16 ''1'') (run two_notes_session initial)))) = 1 \<and>
   (0::nat) < length (todos (run two_notes_session initial)) \<and>
   todos (toggleTodo (utf16 ''1'') (run two_notes_session initial)) ! 0 =
     \<lparr>todo_id = utf16 ''1'', todo_text = utf16 ''Buy milk'', todo_done = True\<rparr> \<and>
   utf16 ''9'' \<notin> set (map todo_id (todos (run two_notes_session initial))) \<and>
   toggleTodo (utf16 ''9'') (run two_notes_session initial) = run two_notes_session initial"
proof -
  let ?S = "run two_notes_session initial"
  have d: "distinct (map todo_id (todos ?S))"
    by (simp add: two_notes_state utf16_def)
  have p: "utf16 ''1'' \<in> set (map todo_id (todos ?S))"
    by (simp add: two_notes_state)
  have a: "utf16 ''9'' \<notin> set (map todo_id (todos ?S))"
    by (simp add: two_notes_state utf16_def)
  have l: "(0::nat) < length (todos ?S)"
    by (simp add: two_notes_state)
  have z: "todos ?S ! 0 = \<lparr>todo_id = utf16 ''1'', todo_text = utf16 ''Buy milk'', todo_done = False\<rparr>"
    by (simp add: two_notes_state)
  note T = toggleTodo_flips [of "utf16 ''1''" ?S]
  note U = toggleTodo_flips [of "utf16 ''9''" ?S]
  from T d p have c: "length (changed_entries (todos ?S) (todos (toggleTodo (utf16 ''1'') ?S))) = 1"
    by blast
  from T l have "todos (toggleTodo (utf16 ''1'') ?S) ! 0 =
        (if todo_id (todos ?S ! 0) = utf16 ''1''
         then (todos ?S ! 0)\<lparr>todo_done := \<not> todo_done (todos ?S ! 0)\<rparr>
         else todos ?S ! 0)"
    by blast
  then have f: "todos (toggleTodo (utf16 ''1'') ?S) ! 0 =
     \<lparr>todo_id = utf16 ''1'', todo_text = utf16 ''Buy milk'', todo_done = True\<rparr>"
    by (simp add: z)
  from U a have n: "toggleTodo (utf16 ''9'') ?S = ?S"
    by blast
  from d p c l f a n show ?thesis
    by blast
qed

text \<open>
  Without distinct ids the flip is not of one entry: after two presses of Add in the
  same millisecond both notes carry the id 5, and toggling 5 flips both.
\<close>

theorem toggleTodo_flips_both:
  "toString 5 \<in> set (map todo_id (todos (run same_tick_session initial))) \<and>
   todos (toggleTodo (toString 5) (run same_tick_session initial)) =
     [\<lparr>todo_id = utf16 ''5'', todo_text = utf16 ''a'', todo_done = True\<rparr>,
      \<lparr>todo_id = utf16 ''5'', todo_text = utf16 ''b'', todo_done = True\<rparr>] \<and>
   length (changed_entries (todos (run same_tick_session initial))
             (todos (toggleTodo (toString 5) (run same_tick_session initial)))) = 2"
proof -
  have i: "toString 5 = utf16 ''5''"
    by code_simp
  show ?thesis
    by (simp add: same_tick_state i toggleTodo_def toggled_def changed_entries_def)
qed

text \<open>
  C5, as the code has it. Deleting an id keeps exactly the notes with another id, in
  order, and the input; the list never grows, and it shrinks by the number of notes
  that carried the id; an id not in the list leaves the state unchanged; and when the
  ids of the list are pairwise distinct and the id is present, exactly one note goes.
\<close>

theorem deleteTodo_removes:
  "todos (deleteTodo i st) = filter (\<lambda>todo. todo_id todo \<noteq> i) (todos st) \<and>
   input (deleteTodo i st) = input st \<and>
   length (todos (deleteTodo i st)) \<le> length (todos st) \<and>
   length (todos (deleteTodo i st)) + length (filter (\<lambda>todo. todo_id todo = i) (todos st)) =
     length (todos st) \<and>
   (i \<notin> set (map todo_id (todos st)) \<longrightarrow> deleteTodo i st = st) \<and>
   (distinct (map todo_id (todos st)) \<and> i \<in> set (map todo_id (todos st)) \<longrightarrow>
      length (todos (deleteTodo i st)) + 1 = length (todos st))"
proof (intro conjI impI)
  show "todos (deleteTodo i st) = filter (\<lambda>todo. todo_id todo \<noteq> i) (todos st)"
    by (rule todos_deleteTodo)
  show "input (deleteTodo i st) = input st"
    by (simp add: deleteTodo_def)
  show "length (todos (deleteTodo i st)) \<le> length (todos st)"
    by (simp add: todos_deleteTodo)
  show "length (todos (deleteTodo i st)) + length (filter (\<lambda>todo. todo_id todo = i) (todos st)) =
     length (todos st)"
    using sum_length_filter_compl [of "\<lambda>todo. todo_id todo = i" "todos st"]
    by (simp add: todos_deleteTodo)
next
  assume "i \<notin> set (map todo_id (todos st))"
  then have "filter (\<lambda>todo. todo_id todo \<noteq> i) (todos st) = todos st" by (rule filter_absent)
  then show "deleteTodo i st = st" by (simp add: deleteTodo_def)
next
  assume "distinct (map todo_id (todos st)) \<and> i \<in> set (map todo_id (todos st))"
  then show "length (todos (deleteTodo i st)) + 1 = length (todos st)"
    by (simp only: todos_deleteTodo filter_once)
qed

theorem deleteTodo_removes_witness:
  "distinct (map todo_id (todos (run two_notes_session initial))) \<and>
   utf16 ''1'' \<in> set (map todo_id (todos (run two_notes_session initial))) \<and>
   length (todos (deleteTodo (utf16 ''1'') (run two_notes_session initial))) + 1 =
     length (todos (run two_notes_session initial)) \<and>
   utf16 ''9'' \<notin> set (map todo_id (todos (run two_notes_session initial))) \<and>
   deleteTodo (utf16 ''9'') (run two_notes_session initial) = run two_notes_session initial"
proof -
  let ?S = "run two_notes_session initial"
  have d: "distinct (map todo_id (todos ?S))"
    by (simp add: two_notes_state utf16_def)
  have p: "utf16 ''1'' \<in> set (map todo_id (todos ?S))"
    by (simp add: two_notes_state)
  have a: "utf16 ''9'' \<notin> set (map todo_id (todos ?S))"
    by (simp add: two_notes_state utf16_def)
  from d p a deleteTodo_removes [of "utf16 ''1''" ?S] deleteTodo_removes [of "utf16 ''9''" ?S]
  show ?thesis
    by blast
qed

text \<open>
  Without distinct ids more than one note goes: with both notes carrying the id 5,
  deleting 5 empties a list of two.
\<close>

theorem deleteTodo_removes_both:
  "toString 5 \<in> set (map todo_id (todos (run same_tick_session initial))) \<and>
   length (todos (run same_tick_session initial)) = 2 \<and>
   todos (deleteTodo (toString 5) (run same_tick_session initial)) = []"
proof -
  have i: "toString 5 = utf16 ''5''"
    by code_simp
  show ?thesis
    by (simp add: same_tick_state i deleteTodo_def)
qed

section \<open>Toggle and delete as algebra\<close>

text \<open>
  C9. Toggling the same id twice in succession gives back exactly the original state;
  this holds for every list, so in particular for one that has an entry with that id.
\<close>

theorem toggleTodo_involution: "toggleTodo i (toggleTodo i st) = st"
proof -
  have "toggled i (toggled i todo) = todo" for todo
    by (simp add: toggled_def)
  then have "map (toggled i \<circ> toggled i) (todos st) = todos st"
    by (simp add: map_idI)
  then show ?thesis
    by (simp add: toggleTodo_def)
qed

text \<open>
  C10. Deleting an id is idempotent, and one delete leaves no entry with that id,
  however many the list had.
\<close>

theorem deleteTodo_idempotent:
  "deleteTodo i (deleteTodo i st) = deleteTodo i st \<and>
   i \<notin> set (map todo_id (todos (deleteTodo i st)))"
  by (auto simp: deleteTodo_def)

section \<open>Sessions\<close>

lemma add_clocks_snoc: "add_clocks (evs @ [e]) = add_clocks evs @ add_clock e"
  by (simp add: add_clocks_def)

lemma ids_invariant:
  "distinct (add_clocks evs) \<Longrightarrow>
   distinct (map todo_id (todos (run evs initial))) \<and>
   set (map todo_id (todos (run evs initial))) \<subseteq> toString ` set (add_clocks evs)"
proof (induction evs rule: rev_induct)
  case Nil
  then show ?case by (simp add: run_def initial_def)
next
  case (snoc e evs)
  from snoc.prems have d: "distinct (add_clocks evs)"
    by (simp add: add_clocks_snoc)
  with snoc.IH have dist: "distinct (map todo_id (todos (run evs initial)))"
    and sub: "set (map todo_id (todos (run evs initial))) \<subseteq> toString ` set (add_clocks evs)"
    by simp_all
  show ?case
  proof (cases e)
    case (ChangeText s)
    with dist sub show ?thesis
      by (simp add: run_snoc add_clocks_snoc setInput_def)
  next
    case (PressAdd now)
    with snoc.prems have fresh: "now \<notin> set (add_clocks evs)"
      by (simp add: add_clocks_snoc)
    have "toString now \<notin> toString ` set (add_clocks evs)"
    proof
      assume "toString now \<in> toString ` set (add_clocks evs)"
      then obtain c where "c \<in> set (add_clocks evs)" and "toString now = toString c"
        by auto
      with fresh show False by (auto dest: toString_inj)
    qed
    with sub have new: "toString now \<notin> set (map todo_id (todos (run evs initial)))"
      by auto
    from PressAdd dist sub new show ?thesis
      by (auto simp: run_snoc add_clocks_snoc todos_addTodo)
  next
    case (PressToggle i)
    with dist sub show ?thesis
      by (simp add: run_snoc add_clocks_snoc todos_toggleTodo todo_id_toggled comp_def)
  next
    case (PressDelete i)
    have "map todo_id (filter (\<lambda>todo. todo_id todo \<noteq> i) xs) =
            filter (\<lambda>j. j \<noteq> i) (map todo_id xs)" for xs :: "Todo list"
      by (induction xs) auto
    with PressDelete dist sub show ?thesis
      by (auto simp: run_snoc add_clocks_snoc todos_deleteTodo)
  qed
qed

text \<open>
  C1, as the code has it. The id of a note is the decimal numeral of the clock reading
  at its creation, so from the empty list, after any sequence of typing, adding,
  toggling and deleting in which no two presses of Add read the same clock value, the
  ids in the list are pairwise distinct.
\<close>

theorem ids_distinct:
  "distinct (add_clocks evs) \<Longrightarrow> distinct (map todo_id (todos (run evs initial)))"
  by (simp add: ids_invariant)

theorem ids_distinct_witness:
  "distinct (add_clocks two_notes_session) \<and>
   map todo_id (todos (run two_notes_session initial)) = [utf16 ''1'', utf16 ''2''] \<and>
   distinct (map todo_id (todos (run two_notes_session initial)))"
proof -
  have h: "distinct (add_clocks two_notes_session)"
    by (simp add: two_notes_session_def add_clocks_def)
  have "map todo_id (todos (run two_notes_session initial)) = [utf16 ''1'', utf16 ''2'']"
    by code_simp
  with h ids_distinct [OF h] show ?thesis by simp
qed

text \<open>
  Two presses of Add at the same clock reading give two notes with the same id.
\<close>

theorem ids_not_distinct:
  "\<not> distinct (map todo_id (todos (run same_tick_session initial)))"
  by code_simp

lemma insertion_invariant:
  "input (run evs st) = input (run (filter is_insertion evs) st) \<and>
   subseq (map note_key (todos (run evs st)))
          (map note_key (todos (run (filter is_insertion evs) st)))"
proof (induction evs rule: rev_induct)
  case Nil
  show ?case by (simp add: run_def)
next
  case (snoc e evs)
  let ?a = "run evs st" and ?b = "run (filter is_insertion evs) st"
  from snoc.IH have inp: "input ?a = input ?b"
    and sub: "subseq (map note_key (todos ?a)) (map note_key (todos ?b))"
    by simp_all
  show ?case
  proof (cases e)
    case (ChangeText s)
    with inp sub show ?thesis
      by (simp add: run_snoc setInput_def)
  next
    case (PressAdd now)
    show ?thesis
    proof (cases "trim (input ?a) = []")
      case True
      with PressAdd inp sub show ?thesis
        by (simp add: run_snoc addTodo_def)
    next
      case False
      with PressAdd inp sub show ?thesis
        by (simp add: run_snoc addTodo_def)
    qed
  next
    case (PressToggle i)
    with inp sub show ?thesis
      by (simp add: run_snoc toggleTodo_def note_key_toggled comp_def)
  next
    case (PressDelete i)
    have "subseq (map note_key (filter (\<lambda>todo. todo_id todo \<noteq> i) (todos ?a)))
                 (map note_key (todos ?a))"
      by (simp add: subseq_map)
    from this sub have "subseq (map note_key (filter (\<lambda>todo. todo_id todo \<noteq> i) (todos ?a)))
                 (map note_key (todos ?b))"
      by (rule subseq_order.trans)
    with PressDelete inp show ?thesis
      by (simp add: run_snoc deleteTodo_def)
  qed
qed

text \<open>
  C6. Adding extends the list at its end only; toggling keeps every id and text at its
  position; deleting leaves a subsequence; and so after any session from the empty
  list the notes on display, flags aside, are a subsequence of the notes in the order
  of their insertion, which is the list the same typing and adding gives when nothing
  is toggled or deleted.
\<close>

theorem insertion_order:
  "prefix (todos st) (todos (addTodo now st)) \<and>
   map note_key (todos (toggleTodo i st)) = map note_key (todos st) \<and>
   subseq (todos (deleteTodo i st)) (todos st) \<and>
   subseq (map note_key (todos (run evs initial)))
          (map note_key (todos (run (filter is_insertion evs) initial)))"
proof (intro conjI)
  show "prefix (todos st) (todos (addTodo now st))"
    by (simp add: todos_addTodo)
  show "map note_key (todos (toggleTodo i st)) = map note_key (todos st)"
    by (simp add: todos_toggleTodo note_key_toggled)
  show "subseq (todos (deleteTodo i st)) (todos st)"
    by (simp add: todos_deleteTodo)
  show "subseq (map note_key (todos (run evs initial)))
          (map note_key (todos (run (filter is_insertion evs) initial)))"
    by (simp add: insertion_invariant)
qed

text \<open>
  The scenario of the specification: add Buy milk, toggle it, add Walk dog, delete
  Buy milk.
\<close>

lemma milk_scenario:
  "todos (run (take 2 milk_session) initial) =
     [\<lparr>todo_id = utf16 ''1'', todo_text = utf16 ''Buy milk'', todo_done = False\<rparr>] \<and>
   todos (run (take 3 milk_session) initial) =
     [\<lparr>todo_id = utf16 ''1'', todo_text = utf16 ''Buy milk'', todo_done = True\<rparr>] \<and>
   map todo_text (todos (run (take 5 milk_session) initial)) =
     [utf16 ''Buy milk'', utf16 ''Walk dog''] \<and>
   todos (run milk_session initial) =
     [\<lparr>todo_id = utf16 ''2'', todo_text = utf16 ''Walk dog'', todo_done = False\<rparr>]"
  by code_simp

section \<open>The permission flow\<close>

lemma snd_try_catch:
  fixes block :: "unit io"
  assumes "\<And>e. snd (handler e) = Inr ()"
  shows "snd (try_catch block handler) = Inr ()"
proof (cases block)
  case (Pair calls r)
  show ?thesis
  proof (cases r)
    case (Inl e)
    with Pair assms [of e] show ?thesis
      by (cases "handler e") (simp add: try_catch_def)
  next
    case (Inr x)
    with Pair show ?thesis
      by (simp add: try_catch_def)
  qed
qed

lemma snd_registerDeviceForMessaging: "snd (registerDeviceForMessaging sv) = Inr ()"
  unfolding registerDeviceForMessaging_def
  by (rule snd_try_catch) (simp add: await_def)

lemma snd_requestUserPermission: "snd (requestUserPermission sv) = Inr ()"
  unfolding requestUserPermission_def
  by (rule snd_try_catch) (simp add: await_def)

lemma denied_calls:
  assumes "permission_denied sv"
  shows "fst (requestUserPermission sv) =
           (if Platform_OS sv = IOS then [MessagingRequestPermission]
            else [PermissionsAndroidRequest POST_NOTIFICATIONS])"
proof (cases "Platform_OS sv = IOS")
  case True
  with assms obtain authStatus where
    "messaging_requestPermission sv = Inr authStatus"
    "authStatus \<noteq> AUTHORIZED" "authStatus \<noteq> PROVISIONAL"
    by (auto simp: permission_denied_def split: sum.splits)
  with True show ?thesis
    by (simp add: requestUserPermission_def try_catch_def bind_io_def await_def ret_def)
next
  case False
  with assms obtain granted where
    "Platform_OS sv = Android" "Platform_Version sv \<ge> 33"
    "PermissionsAndroid_request sv POST_NOTIFICATIONS = Inr granted" "granted \<noteq> GRANTED"
    by (auto simp: permission_denied_def split: sum.splits)
  then show ?thesis
    by (simp add: requestUserPermission_def try_catch_def bind_io_def await_def ret_def)
qed

lemma throwing_calls:
  assumes "permission_request_throws sv"
  shows "\<exists>e. fst (requestUserPermission sv) =
           (if Platform_OS sv = IOS then [MessagingRequestPermission]
            else [PermissionsAndroidRequest POST_NOTIFICATIONS]) @
           [ConsoleError (utf16 ''Error requesting permission:'') e]"
proof (cases "Platform_OS sv = IOS")
  case True
  with assms obtain e where "messaging_requestPermission sv = Inl e"
    by (auto simp: permission_request_throws_def isl_def)
  with True show ?thesis
    by (simp add: requestUserPermission_def try_catch_def bind_io_def await_def)
next
  case False
  with assms obtain e where
    "Platform_OS sv = Android" "Platform_Version sv \<ge> 33"
    "PermissionsAndroid_request sv POST_NOTIFICATIONS = Inl e"
    by (auto simp: permission_request_throws_def isl_def)
  then show ?thesis
    by (simp add: requestUserPermission_def try_catch_def bind_io_def await_def)
qed

text \<open>
  C8. \<open>requestUserPermission\<close> always completes without an error escaping. In every
  run in which permission is denied (on iOS a status that is neither AUTHORIZED nor
  PROVISIONAL, on Android 33 and later a result other than GRANTED) or in which the
  permission request throws, \<open>registerDeviceForRemoteMessages\<close> is not called; and
  when the request throws, the error is logged with \<open>console.error\<close>.
\<close>

theorem permission_flow:
  "snd (requestUserPermission sv) = Inr () \<and>
   (permission_denied sv \<or> permission_request_throws sv \<longrightarrow>
      RegisterDeviceForRemoteMessages \<notin> set (fst (requestUserPermission sv))) \<and>
   (permission_request_throws sv \<longrightarrow>
      (\<exists>e. ConsoleError (utf16 ''Error requesting permission:'') e
             \<in> set (fst (requestUserPermission sv))))"
proof (intro conjI impI)
  show "snd (requestUserPermission sv) = Inr ()"
    by (rule snd_requestUserPermission)
next
  assume "permission_denied sv \<or> permission_request_throws sv"
  then show "RegisterDeviceForRemoteMessages \<notin> set (fst (requestUserPermission sv))"
  proof
    assume "permission_denied sv"
    then show ?thesis by (simp add: denied_calls)
  next
    assume "permission_request_throws sv"
    then obtain e where "fst (requestUserPermission sv) =
           (if Platform_OS sv = IOS then [MessagingRequestPermission]
            else [PermissionsAndroidRequest POST_NOTIFICATIONS]) @
           [ConsoleError (utf16 ''Error requesting permission:'') e]"
      using throwing_calls by blast
    then show ?thesis by simp
  qed
next
  assume "permission_request_throws sv"
  then obtain e where "fst (requestUserPermission sv) =
           (if Platform_OS sv = IOS then [MessagingRequestPermission]
            else [PermissionsAndroidRequest POST_NOTIFICATIONS]) @
           [ConsoleError (utf16 ''Error requesting permission:'') e]"
    using throwing_calls by blast
  then have "ConsoleError (utf16 ''Error requesting permission:'') e
             \<in> set (fst (requestUserPermission sv))"
    by simp
  then show "\<exists>e. ConsoleError (utf16 ''Error requesting permission:'') e
             \<in> set (fst (requestUserPermission sv))" ..
qed

theorem permission_flow_witness:
  "permission_denied (working_services\<lparr>Platform_OS := IOS, messaging_requestPermission := Inr DENIED\<rparr>) \<and>
   RegisterDeviceForRemoteMessages \<notin> set (fst (requestUserPermission
      (working_services\<lparr>Platform_OS := IOS, messaging_requestPermission := Inr DENIED\<rparr>))) \<and>
   snd (requestUserPermission
      (working_services\<lparr>Platform_OS := IOS, messaging_requestPermission := Inr DENIED\<rparr>)) = Inr () \<and>
   permission_denied (working_services\<lparr>PermissionsAndroid_request := (\<lambda>p. Inr NEVER_ASK_AGAIN)\<rparr>) \<and>
   RegisterDeviceForRemoteMessages \<notin> set (fst (requestUserPermission
      (working_services\<lparr>PermissionsAndroid_request := (\<lambda>p. Inr NEVER_ASK_AGAIN)\<rparr>))) \<and>
   permission_request_throws
      (working_services\<lparr>PermissionsAndroid_request := (\<lambda>p. Inl (JsError (utf16 ''no activity'')))\<rparr>) \<and>
   RegisterDeviceForRemoteMessages \<notin> set (fst (requestUserPermission
      (working_services\<lparr>PermissionsAndroid_request := (\<lambda>p. Inl (JsError (utf16 ''no activity'')))\<rparr>))) \<and>
   snd (requestUserPermission
      (working_services\<lparr>PermissionsAndroid_request := (\<lambda>p. Inl (JsError (utf16 ''no activity'')))\<rparr>)) = Inr ()"
proof -
  let ?A = "working_services\<lparr>Platform_OS := IOS, messaging_requestPermission := Inr DENIED\<rparr>"
  let ?B = "working_services\<lparr>PermissionsAndroid_request := (\<lambda>p. Inr NEVER_ASK_AGAIN)\<rparr>"
  let ?C = "working_services\<lparr>PermissionsAndroid_request := (\<lambda>p. Inl (JsError (utf16 ''no activity'')))\<rparr>"
  have a: "permission_denied ?A"
    by (simp add: permission_denied_def working_services_def)
  have b: "permission_denied ?B"
    by (simp add: permission_denied_def working_services_def)
  have c: "permission_request_throws ?C"
    by (simp add: permission_request_throws_def working_services_def)
  from a b c permission_flow [of ?A] permission_flow [of ?B] permission_flow [of ?C]
  show ?thesis
    by blast
qed

text \<open>With permission granted the device is registered and the token logged.\<close>

lemma granted_calls:
  "fst (requestUserPermission working_services) =
     [PermissionsAndroidRequest POST_NOTIFICATIONS, RegisterDeviceForRemoteMessages, GetToken,
      ConsoleLog (utf16 ''FCM Token:'') (utf16 ''token'')]"
  by (simp add: requestUserPermission_def registerDeviceForMessaging_def try_catch_def
        bind_io_def await_def working_services_def)

section \<open>Displaying a notification\<close>

lemma displayNotification_calls:
  "fst (displayNotification sv remoteMessage) =
     (case notifee_requestPermission sv of
        Inl e \<Rightarrow> [NotifeeRequestPermission]
      | Inr u \<Rightarrow>
         (case notifee_createChannel sv default_channel of
            Inl e \<Rightarrow> [NotifeeRequestPermission, NotifeeCreateChannel default_channel]
          | Inr ch \<Rightarrow> [NotifeeRequestPermission, NotifeeCreateChannel default_channel,
                       NotifeeDisplayNotification (displayRequest remoteMessage ch)]))"
  by (simp add: displayNotification_def bind_io_def await_def split: sum.splits)

lemma displayed_is_displayRequest:
  assumes "NotifeeDisplayNotification req \<in> set (fst (displayNotification sv remoteMessage))"
  shows "\<exists>ch. req = displayRequest remoteMessage ch"
  using assms by (auto simp: displayNotification_calls split: sum.splits)

text \<open>
  C7, as the code has it. When the permission request and the channel creation return,
  \<open>displayNotification\<close> asks Notifee to display one notification. Its title is
  \<open>New Notification\<close> when the message has no title or an empty one, and the
  message's title verbatim when that is a non-empty string; its body is
  \<open>You have a new message\<close> when the message has no body or an empty one, and the
  message's body verbatim when that is a non-empty string.
\<close>

theorem displayed_text:
  "(notifee_requestPermission sv = Inr () \<and> notifee_createChannel sv default_channel = Inr ch \<longrightarrow>
      fst (displayNotification sv remoteMessage) =
        [NotifeeRequestPermission, NotifeeCreateChannel default_channel,
         NotifeeDisplayNotification (displayRequest remoteMessage ch)]) \<and>
   (NotifeeDisplayNotification req \<in> set (fst (displayNotification sv remoteMessage)) \<longrightarrow>
      (message_title remoteMessage = None \<or> message_title remoteMessage = Some [] \<longrightarrow>
         shown_title req = utf16 ''New Notification'') \<and>
      (\<forall>t. message_title remoteMessage = Some t \<and> t \<noteq> [] \<longrightarrow> shown_title req = t) \<and>
      (message_body remoteMessage = None \<or> message_body remoteMessage = Some [] \<longrightarrow>
         shown_body req = utf16 ''You have a new message'') \<and>
      (\<forall>b. message_body remoteMessage = Some b \<and> b \<noteq> [] \<longrightarrow> shown_body req = b))"
proof (intro conjI impI)
  assume "notifee_requestPermission sv = Inr () \<and> notifee_createChannel sv default_channel = Inr ch"
  then show "fst (displayNotification sv remoteMessage) =
        [NotifeeRequestPermission, NotifeeCreateChannel default_channel,
         NotifeeDisplayNotification (displayRequest remoteMessage ch)]"
    by (simp add: displayNotification_calls)
next
  assume "NotifeeDisplayNotification req \<in> set (fst (displayNotification sv remoteMessage))"
  then obtain c where req: "req = displayRequest remoteMessage c"
    using displayed_is_displayRequest by blast
  {
    assume "message_title remoteMessage = None \<or> message_title remoteMessage = Some []"
    then show "shown_title req = utf16 ''New Notification''"
      by (auto simp: req displayRequest_def)
  }
  show "\<forall>t. message_title remoteMessage = Some t \<and> t \<noteq> [] \<longrightarrow> shown_title req = t"
    by (simp add: req displayRequest_def)
  {
    assume "message_body remoteMessage = None \<or> message_body remoteMessage = Some []"
    then show "shown_body req = utf16 ''You have a new message''"
      by (auto simp: req displayRequest_def)
  }
  show "\<forall>b. message_body remoteMessage = Some b \<and> b \<noteq> [] \<longrightarrow> shown_body req = b"
    by (simp add: req displayRequest_def)
qed

theorem displayed_text_witness:
  "notifee_requestPermission working_services = Inr () \<and>
   notifee_createChannel working_services default_channel = Inr (utf16 ''default'') \<and>
   NotifeeDisplayNotification (displayRequest bare_message (utf16 ''default''))
     \<in> set (fst (displayNotification working_services bare_message)) \<and>
   message_title bare_message = None \<and>
   message_body bare_message = None \<and>
   shown_title (displayRequest bare_message (utf16 ''default'')) = utf16 ''New Notification'' \<and>
   shown_body (displayRequest bare_message (utf16 ''default'')) = utf16 ''You have a new message'' \<and>
   NotifeeDisplayNotification (displayRequest full_message (utf16 ''default''))
     \<in> set (fst (displayNotification working_services full_message)) \<and>
   message_title full_message = Some (utf16 ''Sale'') \<and> utf16 ''Sale'' \<noteq> [] \<and>
   message_body full_message = Some (utf16 ''Half price'') \<and> utf16 ''Half price'' \<noteq> [] \<and>
   shown_title (displayRequest full_message (utf16 ''default'')) = utf16 ''Sale'' \<and>
   shown_body (displayRequest full_message (utf16 ''default'')) = utf16 ''Half price''"
proof -
  let ?ch = "utf16 ''default''"
  have p: "notifee_requestPermission working_services = Inr ()"
    by (simp add: working_services_def)
  have c: "notifee_createChannel working_services default_channel = Inr ?ch"
    by (simp add: working_services_def default_channel_def)
  have bt: "message_title bare_message = None" and bb: "message_body bare_message = None"
    by (simp_all add: message_title_def message_body_def bare_message_def)
  have ft: "message_title full_message = Some (utf16 ''Sale'')"
    and fb: "message_body full_message = Some (utf16 ''Half price'')"
    by (simp_all add: message_title_def message_body_def full_message_def)
  have ne: "utf16 ''Sale'' \<noteq> []" "utf16 ''Half price'' \<noteq> []"
    by (simp_all add: utf16_def)
  note B = displayed_text [of working_services ?ch bare_message "displayRequest bare_message ?ch"]
  note F = displayed_text [of working_services ?ch full_message "displayRequest full_message ?ch"]
  from B p c have mb: "NotifeeDisplayNotification (displayRequest bare_message ?ch)
     \<in> set (fst (displayNotification working_services bare_message))"
    by simp
  from F p c have mf: "NotifeeDisplayNotification (displayRequest full_message ?ch)
     \<in> set (fst (displayNotification working_services full_message))"
    by simp
  from B mb bt bb have rb:
    "shown_title (displayRequest bare_message ?ch) = utf16 ''New Notification''"
    "shown_body (displayRequest bare_message ?ch) = utf16 ''You have a new message''"
    by blast+
  from F mf ft fb ne have rf:
    "shown_title (displayRequest full_message ?ch) = utf16 ''Sale''"
    "shown_body (displayRequest full_message ?ch) = utf16 ''Half price''"
    by blast+
  from p c mb bt bb rb mf ft fb ne rf show ?thesis
    by blast
qed

text \<open>
  A title that is present but empty is not shown verbatim: \<open>||\<close> takes the empty
  string for missing, and the fallback title is displayed.
\<close>

theorem blank_title_replaced:
  "message_title blank_title_message = Some [] \<and>
   message_body blank_title_message = Some (utf16 ''hi'') \<and>
   fst (displayNotification working_services blank_title_message) =
     [NotifeeRequestPermission, NotifeeCreateChannel default_channel,
      NotifeeDisplayNotification
        \<lparr>shown_title = utf16 ''New Notification'', shown_body = utf16 ''hi'',
         android = \<lparr>channelId = utf16 ''default'', smallIcon = utf16 ''ic_launcher'',
                    pressAction_id = utf16 ''default''\<rparr>,
         ios = \<lparr>sound = utf16 ''default''\<rparr>\<rparr>] \<and>
   utf16 ''New Notification'' \<noteq> []"
  by (simp add: displayNotification_calls displayRequest_def message_title_def message_body_def
        blank_title_message_def working_services_def default_channel_def utf16_def)

end
